theory Spec2Isabelle
  imports Main "HOL-Library.Sublist"
begin

section \<open>shld: linking sourced shell fragments into one script\<close>

text \<open>
  The development embeds \<^verbatim>\<open>src/shld.py\<close>. The program is Python 2: its files are
  opened in mode \<^verbatim>\<open>'r'\<close>, so every line is a byte string, which is a \<^typ>\<open>string\<close>
  (a list of 8-bit characters) here.
\<close>

subsection \<open>Exit statuses and failures\<close>

definition OPEN_FAILED :: nat where "OPEN_FAILED = 1"
definition UNSUPPORTED_SHELL :: nat where "UNSUPPORTED_SHELL = 2"
definition IMPROPER_USE_OF_SHLDIGNORE :: nat where "IMPROPER_USE_OF_SHLDIGNORE = 3"
definition WRONG_NUMBER_ARGS :: nat where "WRONG_NUMBER_ARGS = 4"
definition FILE_EXISTS :: nat where "FILE_EXISTS = 5"
definition FILE_NOT_WRITEABLE :: nat where "FILE_NOT_WRITEABLE = 6"
definition DIRECTORY_DOES_NOT_EXIST :: nat where "DIRECTORY_DOES_NOT_EXIST = 7"
definition DIRECTORY_NOT_WRITEABLE :: nat where "DIRECTORY_NOT_WRITEABLE = 8"

text \<open>
  What \<^verbatim>\<open>process_file\<close> writes to the standard error stream before it calls
  \<^verbatim>\<open>exit\<close>: the values that its three messages are formatted from.
\<close>

datatype report =
    FailedToOpen string             \<comment> \<open>\<^verbatim>\<open>e.filename\<close> of the \<^verbatim>\<open>IOError\<close>\<close>
  | NotASupportedShell string       \<comment> \<open>the detected shell\<close>
  | ShldignoreWithoutSource string nat  \<comment> \<open>\<^verbatim>\<open>input_filename\<close> and \<^verbatim>\<open>line_number\<close>\<close>

text \<open>The exceptions that no handler of the program catches.\<close>

datatype exn = IndexError | AttributeError | ValueError | OSError | RuntimeError

text \<open>
  A run of \<^verbatim>\<open>process_file\<close> that does not return either leaves through \<^verbatim>\<open>exit\<close>
  with a status and a report, or dies of an uncaught exception.
\<close>

datatype abort = Exit nat report | Uncaught exn

fun exit_status :: "abort \<Rightarrow> nat option" where
  "exit_status (Exit n r) = Some n"
| "exit_status (Uncaught e) = None"

definition documented_statuses :: "nat list" where
  "documented_statuses =
     [OPEN_FAILED, UNSUPPORTED_SHELL, IMPROPER_USE_OF_SHLDIGNORE, WRONG_NUMBER_ARGS,
      FILE_EXISTS, FILE_NOT_WRITEABLE, DIRECTORY_DOES_NOT_EXIST, DIRECTORY_NOT_WRITEABLE]"

subsection \<open>The patterns\<close>

text \<open>
  \<^verbatim>\<open>\s\<close> of a pattern compiled with \<^verbatim>\<open>re.UNICODE\<close>, on a byte of a Python 2 byte
  string: the six ASCII white space characters, the four separators 0x1C to 0x1F, and
  the Latin-1 code points 0x85 and 0xA0.
\<close>

definition re_space :: "char \<Rightarrow> bool" where
  "re_space c \<longleftrightarrow>
     c \<in> set [CHR 0x09, CHR 0x0A, CHR 0x0B, CHR 0x0C, CHR 0x0D,
              CHR 0x1C, CHR 0x1D, CHR 0x1E, CHR 0x1F, CHR 0x20, CHR 0x85, CHR 0xA0]"

text \<open>
  Case folding of \<^verbatim>\<open>re.IGNORECASE\<close>, as far as the marker needs it: the only bytes
  that fold to a letter of the marker are that letter and its ASCII capital.
\<close>

definition re_lower :: "char \<Rightarrow> char" where
  "re_lower c =
     (case map_of (zip ''ABCDEFGHIJKLMNOPQRSTUVWXYZ'' ''abcdefghijklmnopqrstuvwxyz'') c of
        None \<Rightarrow> c
      | Some l \<Rightarrow> l)"

text \<open>The literal \<open>kw\<close> at the start of \<open>s\<close>, followed by at least one \<^verbatim>\<open>\s\<close>.\<close>

definition keyword_then_space :: "string \<Rightarrow> string \<Rightarrow> bool" where
  "keyword_then_space kw s \<longleftrightarrow>
     take (length kw) s = kw \<and>
     (case drop (length kw) s of [] \<Rightarrow> False | c # _ \<Rightarrow> re_space c)"

text \<open>
  \<^verbatim>\<open>SHLDIGNORE_COMMENT_PATTERN.match(line)\<close>, for the pattern
  \<^verbatim>\<open>^\s*#shldignore\<close> with \<^verbatim>\<open>re.UNICODE | re.IGNORECASE\<close>. The marker does not start
  with white space, so the greedy \<^verbatim>\<open>\s*\<close> never has to give a character back.
\<close>

definition SHLDIGNORE_COMMENT_PATTERN_match :: "string \<Rightarrow> bool" where
  "SHLDIGNORE_COMMENT_PATTERN_match line \<longleftrightarrow>
     map re_lower (take 11 (dropWhile re_space line)) = ''#shldignore''"

text \<open>
  \<^verbatim>\<open>SOURCE_CMD_PATTERN.match(line)\<close>, for the pattern
  \<^verbatim>\<open>^\s*(?:source|\.)\s+\.*\<close>. After the leading white space comes one of the two
  keywords, then at least one \<^verbatim>\<open>\s\<close>; the final \<^verbatim>\<open>\.*\<close> matches the empty string, and
  \<^verbatim>\<open>match\<close> does not look at what follows the matched prefix.
\<close>

definition SOURCE_CMD_PATTERN_match :: "string \<Rightarrow> bool" where
  "SOURCE_CMD_PATTERN_match line \<longleftrightarrow>
     (let s = dropWhile re_space line
      in keyword_then_space ''source'' s \<or> keyword_then_space ''.'' s)"

text \<open>
  \<^verbatim>\<open>re.search(ur'.*?([^/\s]+)\s*$', line, re.UNICODE)\<close> and its \<^verbatim>\<open>group(1)\<close>. The
  group is a run of characters that are neither \<^verbatim>\<open>/\<close> nor \<^verbatim>\<open>\s\<close>, and only \<^verbatim>\<open>\s\<close>
  may follow it up to the end of the line; the lazy \<^verbatim>\<open>.*?\<close> makes the run start as
  early as it can. So the group is the longest such run before the trailing white
  space, and there is no match when that run is empty.
\<close>

definition shell_char :: "char \<Rightarrow> bool" where
  "shell_char c \<longleftrightarrow> c \<noteq> CHR ''/'' \<and> \<not> re_space c"

definition search_shell :: "string \<Rightarrow> string option" where
  "search_shell line =
     (let shell = rev (takeWhile shell_char (dropWhile re_space (rev line)))
      in if shell = [] then None else Some shell)"

definition SUPPORTED_SHELLS :: "string list" where
  "SUPPORTED_SHELLS = [''sh'', ''bash'', ''dash'', ''ksh'']"

subsection \<open>Splitting an inclusion statement into words\<close>

text \<open>
  \<^verbatim>\<open>shlex.split(line)\<close> of the standard library: the lexer in POSIX mode, with
  \<^verbatim>\<open>whitespace_split\<close> set and no comment characters. The lexer reads one character at
  a time; its state is white space, a word, a quotation opened by \<^verbatim>\<open>'\<close> or \<^verbatim>\<open>"\<close>, or
  the character after a backslash. A backslash is an escape outside quotations and
  inside \<^verbatim>\<open>"\<close>, not inside \<^verbatim>\<open>'\<close>. The end of the text inside a quotation or after a
  backslash raises \<^verbatim>\<open>ValueError\<close>.
\<close>

datatype lexer_state = InWhite | InWord | InQuote char | InEscape

definition shlex_whitespace :: "char \<Rightarrow> bool" where
  "shlex_whitespace c \<longleftrightarrow> c \<in> set [CHR 0x20, CHR 0x09, CHR 0x0D, CHR 0x0A]"

definition shlex_quotes :: "char \<Rightarrow> bool" where
  "shlex_quotes c \<longleftrightarrow> c = CHR 0x27 \<or> c = CHR 0x22"

definition shlex_escape :: "char \<Rightarrow> bool" where
  "shlex_escape c \<longleftrightarrow> c = CHR 0x5C"

definition shlex_escapedquotes :: "char \<Rightarrow> bool" where
  "shlex_escapedquotes c \<longleftrightarrow> c = CHR 0x22"

text \<open>
  \<open>read_tokens state escapedstate token quoted text\<close>: the tokens that the lexer still
  yields, \<open>token\<close> being the characters of the current token read so far and \<open>quoted\<close>
  telling whether a quotation has contributed to it (an empty token is yielded only
  then).
\<close>

fun read_tokens ::
  "lexer_state \<Rightarrow> lexer_state \<Rightarrow> string \<Rightarrow> bool \<Rightarrow> string \<Rightarrow> exn + string list" where
  "read_tokens InWhite esc token quoted [] =
     Inr (if token \<noteq> [] \<or> quoted then [token] else [])"
| "read_tokens InWhite esc token quoted (c # cs) =
     (if shlex_whitespace c then
        (if token \<noteq> [] \<or> quoted then
           (case read_tokens InWhite InWhite [] False cs of
              Inl e \<Rightarrow> Inl e
            | Inr ts \<Rightarrow> Inr (token # ts))
         else read_tokens InWhite esc token quoted cs)
      else if shlex_escape c then read_tokens InEscape InWord token quoted cs
      else if shlex_quotes c then read_tokens (InQuote c) esc token quoted cs
      else read_tokens InWord esc [c] quoted cs)"
| "read_tokens (InQuote q) esc token quoted [] = Inl ValueError"
| "read_tokens (InQuote q) esc token quoted (c # cs) =
     (if c = q then read_tokens InWord esc token True cs
      else if shlex_escape c \<and> shlex_escapedquotes q then
        read_tokens InEscape (InQuote q) token True cs
      else read_tokens (InQuote q) esc (token @ [c]) True cs)"
| "read_tokens InEscape esc token quoted [] = Inl ValueError"
| "read_tokens InEscape esc token quoted (c # cs) =
     (case esc of
        InQuote q \<Rightarrow>
          (if \<not> shlex_escape c \<and> c \<noteq> q
           then read_tokens esc esc (token @ [CHR 0x5C] @ [c]) quoted cs
           else read_tokens esc esc (token @ [c]) quoted cs)
      | _ \<Rightarrow> read_tokens esc esc (token @ [c]) quoted cs)"
| "read_tokens InWord esc token quoted [] =
     Inr (if token \<noteq> [] \<or> quoted then [token] else [])"
| "read_tokens InWord esc token quoted (c # cs) =
     (if shlex_whitespace c then
        (if token \<noteq> [] \<or> quoted then
           (case read_tokens InWhite InWhite [] False cs of
              Inl e \<Rightarrow> Inl e
            | Inr ts \<Rightarrow> Inr (token # ts))
         else read_tokens InWhite esc token quoted cs)
      else if shlex_quotes c then read_tokens (InQuote c) esc token quoted cs
      else if shlex_escape c then read_tokens InEscape InWord token quoted cs
      else read_tokens InWord esc (token @ [c]) quoted cs)"

definition shlex_split :: "string \<Rightarrow> exn + string list" where
  "shlex_split s = read_tokens InWhite InWhite [] False s"

text \<open>Python's \<^verbatim>\<open>xs[i]\<close> for an index that is not negative.\<close>

definition subscript :: "'a list \<Rightarrow> nat \<Rightarrow> exn + 'a" where
  "subscript xs i = (if i < length xs then Inr (xs ! i) else Inl IndexError)"

text \<open>
  The argument of the recursive call, \<^verbatim>\<open>shlex.split(line)[1]\<close>: the file name that
  comes after the keyword.
\<close>

definition source_target :: "string \<Rightarrow> exn + string" where
  "source_target line =
     (case shlex_split line of Inl e \<Rightarrow> Inl e | Inr words \<Rightarrow> subscript words 1)"

subsection \<open>Paths, the file system and the working directory\<close>

text \<open>
  \<^verbatim>\<open>os.path.dirname(p)\<close>: everything up to the last \<^verbatim>\<open>/\<close>, without the trailing
  slashes unless there is nothing else.
\<close>

definition is_slash :: "char \<Rightarrow> bool" where
  "is_slash c \<longleftrightarrow> c = CHR ''/''"

definition rstrip_slashes :: "string \<Rightarrow> string" where
  "rstrip_slashes s = rev (dropWhile is_slash (rev s))"

definition dirname :: "string \<Rightarrow> string" where
  "dirname p =
     (let head = rev (dropWhile (\<lambda>c. \<not> is_slash c) (rev p))
      in if head \<noteq> [] \<and> \<not> list_all is_slash head then rstrip_slashes head else head)"

text \<open>
  The file system is a tree that the run does not change (the output goes to the
  standard output or to a fresh temporary file). There are no symbolic links and no
  permissions. A location is the list of names from the root.
\<close>

datatype node = File string | Dir "(string \<times> node) list"

type_synonym location = "string list"

fun lookup :: "node \<Rightarrow> location \<Rightarrow> node option" where
  "lookup n [] = Some n"
| "lookup (File content) (name # names) = None"
| "lookup (Dir entries) (name # names) =
     (case map_of entries name of None \<Rightarrow> None | Some n \<Rightarrow> lookup n names)"

definition is_dir :: "node \<Rightarrow> location \<Rightarrow> bool" where
  "is_dir root loc = (case lookup root loc of Some (Dir entries) \<Rightarrow> True | _ \<Rightarrow> False)"

text \<open>The components of a path: the pieces between its slashes.\<close>

fun components :: "string \<Rightarrow> string list" where
  "components [] = [[]]"
| "components (c # cs) =
     (if is_slash c then [] # components cs
      else (case components cs of [] \<Rightarrow> [[c]] | w # ws \<Rightarrow> (c # w) # ws))"

text \<open>
  Path resolution as the system does it, one component at a time: each component is
  looked up in a directory; an empty component and \<^verbatim>\<open>.\<close> stay there, \<^verbatim>\<open>..\<close> goes to
  the parent (the root is its own parent), a name goes down.
\<close>

fun walk :: "node \<Rightarrow> location \<Rightarrow> string list \<Rightarrow> location option" where
  "walk root loc [] = Some loc"
| "walk root loc (c # cs) =
     (if \<not> is_dir root loc then None
      else if c = [] \<or> c = ''.'' then walk root loc cs
      else if c = ''..'' then walk root (butlast loc) cs
      else walk root (loc @ [c]) cs)"

definition is_absolute :: "string \<Rightarrow> bool" where
  "is_absolute p = (case p of [] \<Rightarrow> False | c # _ \<Rightarrow> is_slash c)"

definition resolve :: "node \<Rightarrow> location \<Rightarrow> string \<Rightarrow> location option" where
  "resolve root cwd p = walk root (if is_absolute p then [] else cwd) (components p)"

text \<open>
  \<^verbatim>\<open>open(p, mode='r')\<close> with the working directory \<open>cwd\<close>: the content of the regular
  file that \<open>p\<close> names, or \<open>None\<close> for an \<^verbatim>\<open>IOError\<close>.
\<close>

definition os_open :: "node \<Rightarrow> location \<Rightarrow> string \<Rightarrow> string option" where
  "os_open root cwd p =
     (case resolve root cwd p of
        None \<Rightarrow> None
      | Some loc \<Rightarrow> (case lookup root loc of Some (File content) \<Rightarrow> Some content | _ \<Rightarrow> None))"

text \<open>
  \<^verbatim>\<open>os.chdir(p)\<close>: the new working directory, or \<open>None\<close> for an \<^verbatim>\<open>OSError\<close>.
\<close>

definition os_chdir :: "node \<Rightarrow> location \<Rightarrow> string \<Rightarrow> location option" where
  "os_chdir root cwd p =
     (case resolve root cwd p of
        None \<Rightarrow> None
      | Some loc \<Rightarrow> if is_dir root loc then Some loc else None)"

text \<open>\<^verbatim>\<open>os.getcwd()\<close>: the absolute path of the working directory.\<close>

definition os_getcwd :: "location \<Rightarrow> string" where
  "os_getcwd cwd = (if cwd = [] then ''/'' else concat (map (\<lambda>name. CHR ''/'' # name) cwd))"

subsection \<open>The expansion\<close>

text \<open>
  An open input file is the list of the lines that \<^verbatim>\<open>readline\<close> still returns, each
  with its newline (the last line of a file may lack one).
\<close>

fun lines_of :: "string \<Rightarrow> string list" where
  "lines_of [] = []"
| "lines_of (c # cs) =
     (if c = CHR 0x0A then [c] # lines_of cs
      else (case lines_of cs of [] \<Rightarrow> [[c]] | l # ls \<Rightarrow> (c # l) # ls))"

text \<open>\<^verbatim>\<open>input_fd.readline()\<close>: the next line, or the empty string at the end of the file.\<close>

definition readline :: "string list \<Rightarrow> string \<times> string list" where
  "readline input = (case input of [] \<Rightarrow> ([], []) | line # rest \<Rightarrow> (line, rest))"

text \<open>
  The state that a run changes: the working directory of the process and what has been
  written to \<^verbatim>\<open>output_fd\<close>.
\<close>

record state =
  cwd :: location
  out :: string

definition output_fd_write :: "string \<Rightarrow> state \<Rightarrow> state" where
  "output_fd_write line st = st\<lparr>out := out st @ line\<rparr>"

text \<open>
  A run that is aborted leaves what it has written so far in \<^verbatim>\<open>output_fd\<close>; the
  result of an aborted run is the way it was aborted and that text.
\<close>

type_synonym result = "(abort \<times> string) + state"

definition aborted :: "abort \<Rightarrow> state \<Rightarrow> (abort \<times> string) + 'a" where
  "aborted a st = Inl (a, out st)"

text \<open>
  The block under \<^verbatim>\<open>if depth == 0\<close>: the first line of the top-level script is
  checked and written; the result is the rest of the input, the initial
  \<^verbatim>\<open>line_number\<close> and the state. \<^verbatim>\<open>match.group(1)\<close> on a failed search is an
  \<^verbatim>\<open>AttributeError\<close>.
\<close>

definition interpreter_line ::
  "nat \<Rightarrow> string list \<Rightarrow> state \<Rightarrow> (abort \<times> string) + (string list \<times> nat \<times> state)" where
  "interpreter_line depth input st =
     (if depth = 0 then
        (let (line, input') = readline input in
         case search_shell line of
           None \<Rightarrow> aborted (Uncaught AttributeError) st
         | Some shell \<Rightarrow>
             if shell \<notin> set SUPPORTED_SHELLS
             then aborted (Exit UNSUPPORTED_SHELL (NotASupportedShell shell)) st
             else Inr (input', 1, output_fd_write line st))
      else Inr (input, 0, st))"

text \<open>
  The conditional \<^verbatim>\<open>pushd\<close>: with a directory part in the file name, the working
  directory is saved and changed; \<^verbatim>\<open>saved_cwd\<close> is \<^verbatim>\<open>None\<close> otherwise.
\<close>

definition pushd ::
  "node \<Rightarrow> string \<Rightarrow> state \<Rightarrow> (abort \<times> string) + (string option \<times> state)" where
  "pushd root input_filename st =
     (let input_dirname = dirname input_filename in
      if input_dirname \<noteq> [] then
        (let saved_cwd = os_getcwd (cwd st) in
         case os_chdir root (cwd st) input_dirname of
           None \<Rightarrow> aborted (Uncaught OSError) st
         | Some loc \<Rightarrow> Inr (Some saved_cwd, st\<lparr>cwd := loc\<rparr>))
      else Inr (None, st))"

text \<open>The \<^verbatim>\<open>popd\<close>: \<^verbatim>\<open>if saved_cwd: os.chdir(saved_cwd)\<close>.\<close>

definition popd :: "node \<Rightarrow> string option \<Rightarrow> state \<Rightarrow> result" where
  "popd root saved_cwd st =
     (case saved_cwd of
        None \<Rightarrow> Inr st
      | Some dir \<Rightarrow>
          if dir \<noteq> [] then
            (case os_chdir root (cwd st) dir of
               None \<Rightarrow> aborted (Uncaught OSError) st
             | Some loc \<Rightarrow> Inr (st\<lparr>cwd := loc\<rparr>))
          else Inr st)"

text \<open>
  The \<^verbatim>\<open>while True\<close> loop of \<^verbatim>\<open>process_file\<close>. \<open>recurse\<close> is the recursive call
  \<^verbatim>\<open>process_file(_, output_fd, depth + 1)\<close>.
\<close>

function scan ::
  "(string \<Rightarrow> state \<Rightarrow> result) \<Rightarrow> string \<Rightarrow> nat \<Rightarrow> string list \<Rightarrow> state \<Rightarrow> result" where
  "scan recurse input_filename line_number [] st = Inr st"
| "scan recurse input_filename line_number (line # input) st =
     (if SHLDIGNORE_COMMENT_PATTERN_match line then
        (let (line', input') = readline input in
         if \<not> SOURCE_CMD_PATTERN_match line' then
           aborted (Exit IMPROPER_USE_OF_SHLDIGNORE
                      (ShldignoreWithoutSource input_filename line_number)) st
         else scan recurse input_filename (line_number + 1 + 1) input'
                (output_fd_write line' st))
      else if SOURCE_CMD_PATTERN_match line then
        (case source_target line of
           Inl e \<Rightarrow> aborted (Uncaught e) st
         | Inr target \<Rightarrow>
             (case recurse target st of
                Inl a \<Rightarrow> Inl a
              | Inr st' \<Rightarrow> scan recurse input_filename (line_number + 1) input st'))
      else scan recurse input_filename (line_number + 1) input (output_fd_write line st))"
  by pat_completeness auto
termination
  by (relation "measure (\<lambda>(recurse, input_filename, line_number, input, st). length input)")
     (auto simp: readline_def split: list.splits)

text \<open>
  \<^verbatim>\<open>process_file(input_filename, output_fd, depth)\<close>. The first argument bounds the
  nesting of the calls, as the recursion limit of the interpreter does: a file that
  includes itself ends in a \<^verbatim>\<open>RuntimeError\<close>.
\<close>

primrec process_file :: "nat \<Rightarrow> node \<Rightarrow> string \<Rightarrow> nat \<Rightarrow> state \<Rightarrow> result" where
  "process_file 0 root input_filename depth st = aborted (Uncaught RuntimeError) st"
| "process_file (Suc limit) root input_filename depth st =
     (case os_open root (cwd st) input_filename of
        None \<Rightarrow> aborted (Exit OPEN_FAILED (FailedToOpen input_filename)) st
      | Some content \<Rightarrow>
          (case interpreter_line depth (lines_of content) st of
             Inl a \<Rightarrow> Inl a
           | Inr (input, line_number, st1) \<Rightarrow>
               (case pushd root input_filename st1 of
                  Inl a \<Rightarrow> Inl a
                | Inr (saved_cwd, st2) \<Rightarrow>
                    (case scan (\<lambda>target. process_file limit root target (depth + 1))
                            input_filename line_number input st2 of
                       Inl a \<Rightarrow> Inl a
                     | Inr st3 \<Rightarrow> popd root saved_cwd st3))))"

subsection \<open>The expansion with the directory as a parameter\<close>

text \<open>
  The working directory that a run starts from is expected to exist, and to be named
  as \<^verbatim>\<open>os.getcwd\<close> names it.
\<close>

definition clean_name :: "string \<Rightarrow> bool" where
  "clean_name name \<longleftrightarrow>
     name \<noteq> [] \<and> name \<noteq> ''.'' \<and> name \<noteq> ''..'' \<and> \<not> list_ex is_slash name"

definition valid_cwd :: "node \<Rightarrow> location \<Rightarrow> bool" where
  "valid_cwd root loc \<longleftrightarrow> is_dir root loc \<and> list_all clean_name loc"

text \<open>
  The expansion as the specification words its handling of directories, with the base
  directory as a parameter of every call and no working directory that changes:
  \<open>dir\<close> is the directory against which \<open>input_filename\<close> is resolved, and the files
  that the opened file includes are resolved against the directory that contains it,
  the parent \<open>butlast loc\<close> of its location \<open>loc\<close>. The check of the interpreter line
  and the loop over the lines are those of \<^verbatim>\<open>process_file\<close>.
\<close>

primrec spec_expand :: "nat \<Rightarrow> node \<Rightarrow> location \<Rightarrow> string \<Rightarrow> nat \<Rightarrow> state \<Rightarrow> result" where
  "spec_expand 0 root dir input_filename depth st = aborted (Uncaught RuntimeError) st"
| "spec_expand (Suc limit) root dir input_filename depth st =
     (case resolve root dir input_filename of
        None \<Rightarrow> aborted (Exit OPEN_FAILED (FailedToOpen input_filename)) st
      | Some loc \<Rightarrow>
          (case lookup root loc of
             Some (File content) \<Rightarrow>
               (case interpreter_line depth (lines_of content) st of
                  Inl a \<Rightarrow> Inl a
                | Inr (input, line_number, st1) \<Rightarrow>
                    scan (\<lambda>target. spec_expand limit root (butlast loc) target (depth + 1))
                      input_filename line_number input st1)
           | _ \<Rightarrow> aborted (Exit OPEN_FAILED (FailedToOpen input_filename)) st))"

subsection \<open>The expansion as a text substitution\<close>

text \<open>
  The expansion as the specification words it, the text that pasting every included
  file in place gives. \<open>spec_expansion root dir input text\<close>: \<open>text\<close> is what the lines
  \<open>input\<close> of a file in the directory \<open>dir\<close> become when every inclusion statement is
  replaced by the expansion of the file that it names, and every other line is kept.
  There is no expansion when a line is an ignore directive, when an inclusion statement
  names no file or a file that cannot be opened, or when the inclusions never end.
\<close>

inductive spec_expansion :: "node \<Rightarrow> location \<Rightarrow> string list \<Rightarrow> string \<Rightarrow> bool"
  for root :: node where
  spec_expansion_end: "spec_expansion root dir [] []"
| spec_expansion_copy:
    "\<not> SHLDIGNORE_COMMENT_PATTERN_match line \<Longrightarrow>
     \<not> SOURCE_CMD_PATTERN_match line \<Longrightarrow>
     spec_expansion root dir input text \<Longrightarrow>
     spec_expansion root dir (line # input) (line @ text)"
| spec_expansion_include:
    "\<not> SHLDIGNORE_COMMENT_PATTERN_match line \<Longrightarrow>
     SOURCE_CMD_PATTERN_match line \<Longrightarrow>
     source_target line = Inr target \<Longrightarrow>
     resolve root dir target = Some loc \<Longrightarrow>
     lookup root loc = Some (File content) \<Longrightarrow>
     spec_expansion root (butlast loc) (lines_of content) included \<Longrightarrow>
     spec_expansion root dir input text \<Longrightarrow>
     spec_expansion root dir (line # input) (included @ text)"

subsection \<open>The classifications as the specification words them\<close>

text \<open>
  The interpreter name as the specification describes it: what follows the last path
  separator of the line, without its trailing white space.
\<close>

definition trailing_path_component :: "string \<Rightarrow> string" where
  "trailing_path_component line =
     rev (dropWhile re_space (takeWhile (\<lambda>c. \<not> is_slash c) (rev line)))"

text \<open>
  The inclusion statement as the specification describes it: optional white space, the
  keyword, white space, and then at least one character that is not white space.
\<close>

definition keyword_space_name :: "string \<Rightarrow> string \<Rightarrow> bool" where
  "keyword_space_name kw s \<longleftrightarrow>
     keyword_then_space kw s \<and> dropWhile re_space (drop (length kw) s) \<noteq> []"

definition names_a_file :: "string \<Rightarrow> bool" where
  "names_a_file line \<longleftrightarrow>
     (let s = dropWhile re_space line
      in keyword_space_name ''source'' s \<or> keyword_space_name ''.'' s)"

subsection \<open>Auxiliary notions\<close>

text \<open>The result of a run with the working directory set to \<open>x\<close>.\<close>

fun with_cwd :: "location \<Rightarrow> result \<Rightarrow> result" where
  "with_cwd x (Inl a) = Inl a"
| "with_cwd x (Inr s) = Inr (s\<lparr>cwd := x\<rparr>)"

text \<open>What a run has written to \<^verbatim>\<open>output_fd\<close>, however it ended.\<close>

fun result_out :: "result \<Rightarrow> string" where
  "result_out (Inl (a, written)) = written"
| "result_out (Inr st) = out st"

text \<open>An interpreter line that the top-level check accepts.\<close>

definition supported_interpreter :: "string \<Rightarrow> bool" where
  "supported_interpreter line =
     (case search_shell line of None \<Rightarrow> False | Some shell \<Rightarrow> shell \<in> set SUPPORTED_SHELLS)"

text \<open>A line that is neither an ignore directive nor an inclusion statement.\<close>

definition ordinary_line :: "string \<Rightarrow> bool" where
  "ordinary_line line \<longleftrightarrow>
     \<not> SHLDIGNORE_COMMENT_PATTERN_match line \<and> \<not> SOURCE_CMD_PATTERN_match line"

subsection \<open>A directory of scripts\<close>

text \<open>
  A file system to run the program on: a directory \<^verbatim>\<open>/scripts\<close> of top-level scripts
  with a library directory below it, and a directory \<^verbatim>\<open>/work\<close> to start a run from. The
  file \<^verbatim>\<open>two.sh\<close> exists in three directories with three contents.
\<close>

definition example_tree :: node where
  "example_tree =
     Dir [(''scripts'', Dir [
            (''main.sh'', File ''#!/bin/bash\<newline>echo a\<newline>. lib/one.sh\<newline>echo b\<newline>''),
            (''two.sh'', File ''echo two of scripts\<newline>''),
            (''ignore.sh'', File ''#!/bin/bash\<newline>#shldignore\<newline>. lib/one.sh\<newline>''),
            (''misuse.sh'', File ''#!/bin/bash\<newline>#shldignore\<newline>echo not-an-include\<newline>''),
            (''keyword.sh'', File ''#!/bin/sh\<newline>source \<newline>''),
            (''env.sh'', File ''#!/usr/bin/env bash\<newline>echo a\<newline>''),
            (''zsh.sh'', File ''#!/bin/zsh\<newline>echo a\<newline>''),
            (''empty.sh'', File []),
            (''plain.sh'', File ''#!/bin/sh\<newline>echo a\<newline>echo b''),
            (''lib'', Dir [
               (''one.sh'', File ''echo one\<newline>source two.sh\<newline>''),
               (''two.sh'', File ''echo two of lib\<newline>'')])]),
          (''work'', Dir [(''two.sh'', File ''echo two of work\<newline>'')])]"

definition in_scripts :: state where
  "in_scripts = \<lparr>cwd = [''scripts''], out = []\<rparr>"

definition in_work :: state where
  "in_work = \<lparr>cwd = [''work''], out = []\<rparr>"

section \<open>Properties\<close>

subsection \<open>Evaluation\<close>

lemmas pattern_defs =
  re_space_def re_lower_def keyword_then_space_def shell_char_def search_shell_def
  SHLDIGNORE_COMMENT_PATTERN_match_def SOURCE_CMD_PATTERN_match_def SUPPORTED_SHELLS_def
  supported_interpreter_def ordinary_line_def

lemmas shlex_defs =
  shlex_whitespace_def shlex_quotes_def shlex_escape_def shlex_escapedquotes_def
  shlex_split_def subscript_def source_target_def

lemmas os_defs =
  is_slash_def rstrip_slashes_def dirname_def is_dir_def is_absolute_def resolve_def
  os_open_def os_chdir_def os_getcwd_def clean_name_def valid_cwd_def

lemmas run_defs =
  readline_def output_fd_write_def aborted_def interpreter_line_def pushd_def popd_def
  OPEN_FAILED_def UNSUPPORTED_SHELL_def IMPROPER_USE_OF_SHLDIGNORE_def scan.simps(2)

lemmas example_defs = example_tree_def in_scripts_def in_work_def

subsection \<open>The inclusion pattern\<close>

text \<open>
  The lines that \<open>SOURCE_CMD_PATTERN_match\<close> accepts are those that have a prefix in the
  language of the pattern: white space, one of the two keywords, and one white space
  character. The rest of the line is free, and may be empty.
\<close>

lemma SOURCE_CMD_PATTERN_match_iff:
  "SOURCE_CMD_PATTERN_match line \<longleftrightarrow>
     (\<exists>ws kw c rest. line = ws @ kw @ c # rest \<and> list_all re_space ws \<and>
        (kw = ''source'' \<or> kw = ''.'') \<and> re_space c)"
proof
  assume m: "SOURCE_CMD_PATTERN_match line"
  define ws where "ws = takeWhile re_space line"
  define s where "s = dropWhile re_space line"
  have l: "line = ws @ s" and w: "list_all re_space ws"
    by (auto simp: ws_def s_def list_all_iff dest: set_takeWhileD)
  from m obtain kw where kw: "kw = ''source'' \<or> kw = ''.''" and k: "keyword_then_space kw s"
    by (auto simp: SOURCE_CMD_PATTERN_match_def s_def Let_def)
  from k obtain c rest where "drop (length kw) s = c # rest" and c: "re_space c"
    and t: "take (length kw) s = kw"
    by (auto simp: keyword_then_space_def split: list.splits)
  then have "s = kw @ c # rest"
    by (metis append_take_drop_id)
  with l w kw c show "\<exists>ws kw c rest. line = ws @ kw @ c # rest \<and> list_all re_space ws \<and>
        (kw = ''source'' \<or> kw = ''.'') \<and> re_space c"
    by blast
next
  assume "\<exists>ws kw c rest. line = ws @ kw @ c # rest \<and> list_all re_space ws \<and>
        (kw = ''source'' \<or> kw = ''.'') \<and> re_space c"
  then obtain ws kw c rest where l: "line = ws @ kw @ c # rest" and w: "list_all re_space ws"
    and kw: "kw = ''source'' \<or> kw = ''.''" and c: "re_space c"
    by blast
  from kw have "kw \<noteq> []" and "\<not> re_space (hd kw)"
    by (auto simp: re_space_def)
  then have "dropWhile re_space (kw @ c # rest) = kw @ c # rest"
    by (cases kw) auto
  with w have "dropWhile re_space line = kw @ c # rest"
    by (simp add: l dropWhile_append3 list_all_iff dropWhile_append2)
  with kw c show "SOURCE_CMD_PATTERN_match line"
    by (auto simp: SOURCE_CMD_PATTERN_match_def keyword_then_space_def)
qed

subsection \<open>Lines and paths\<close>

lemma concat_lines_of: "concat (lines_of s) = s"
  by (induction s) (auto split: list.splits)

lemma walk_append:
  "walk root loc (xs @ ys) =
     (case walk root loc xs of None \<Rightarrow> None | Some l \<Rightarrow> walk root l ys)"
  by (induction xs arbitrary: loc) auto

lemma lookup_append:
  "lookup n (p @ q) = (case lookup n p of None \<Rightarrow> None | Some m \<Rightarrow> lookup m q)"
  by (induction n p rule: lookup.induct) (auto split: option.splits)

lemma is_dir_prefix: "is_dir root (p @ q) \<Longrightarrow> is_dir root p"
  by (cases q) (auto simp: is_dir_def lookup_append split: option.splits node.splits)

lemma is_dir_butlast: "is_dir root loc \<Longrightarrow> is_dir root (butlast loc)"
  by (metis append_butlast_last_id butlast.simps(1) is_dir_prefix)

lemma components_nonempty: "components s \<noteq> []"
  by (induction s) (auto split: list.splits)

lemma components_slash_free: "\<not> list_ex is_slash s \<Longrightarrow> components s = [s]"
  by (induction s) auto

lemma components_append_slash:
  "is_slash c \<Longrightarrow> components (a @ c # b) = components a @ components b"
  by (induction a) (auto simp: components_nonempty split: list.splits)

lemma components_are_slash_free: "w \<in> set (components s) \<Longrightarrow> \<not> list_ex is_slash w"
  by (induction s arbitrary: w) (auto split: if_splits list.splits)

lemma components_slashes: "components (replicate k CHR ''/'') = replicate (Suc k) []"
  by (induction k) (auto simp: is_slash_def)

lemma components_append_slashes:
  "components (a @ replicate (Suc k) CHR ''/'') = components a @ replicate (Suc k) []"
  using components_append_slash [of "CHR ''/''" a "replicate k CHR ''/''"]
  by (simp add: is_slash_def components_slashes)

lemma walk_empties: "walk root loc (replicate k []) = Some loc' \<Longrightarrow> loc' = loc"
  by (induction k) (auto split: if_splits)

lemma walk_empties_dir: "is_dir root loc \<Longrightarrow> walk root loc (replicate k []) = Some loc"
  by (induction k) auto

lemma walk_to_file:
  assumes "walk root cur [name] = Some loc" and "lookup root loc = Some (File content)"
  shows "is_dir root cur \<and> loc = cur @ [name]"
proof -
  have d: "is_dir root cur"
    using assms(1) by (auto split: if_splits)
  have nd: "\<not> is_dir root loc"
    using assms(2) by (simp add: is_dir_def)
  have "loc = cur @ [name]"
    using assms(1) d nd is_dir_butlast [OF d] by (auto split: if_splits)
  with d show ?thesis by simp
qed

lemma all_slashes_replicate: "list_all is_slash xs \<Longrightarrow> xs = replicate (length xs) CHR ''/''"
  by (induction xs) (auto simp: is_slash_def)

lemma rstrip_slashes_decompose:
  "\<exists>k. s = rstrip_slashes s @ replicate k CHR ''/''"
proof -
  have "rev s = takeWhile is_slash (rev s) @ dropWhile is_slash (rev s)"
    by simp
  then have "s = rev (dropWhile is_slash (rev s)) @ rev (takeWhile is_slash (rev s))"
    by (metis rev_append rev_rev_ident)
  moreover have "list_all is_slash (rev (takeWhile is_slash (rev s)))"
    by (auto simp: list_all_iff dest: set_takeWhileD)
  ultimately show ?thesis
    unfolding rstrip_slashes_def using all_slashes_replicate by metis
qed

lemma rstrip_slashes_snoc: "rstrip_slashes (h @ [CHR ''/'']) = rstrip_slashes h"
  by (simp add: rstrip_slashes_def is_slash_def)

lemma rstrip_slashes_empty: "rstrip_slashes h = [] \<Longrightarrow> list_all is_slash h"
  unfolding rstrip_slashes_def
  by (metis dropWhile_eq_Nil_conv list_all_iff rev_is_Nil_conv set_rev)

lemma is_absolute_append: "d \<noteq> [] \<Longrightarrow> is_absolute (d @ r) = is_absolute d"
  by (cases d) (auto simp: is_absolute_def)

lemma slash_free_relative: "\<not> list_ex is_slash name \<Longrightarrow> \<not> is_absolute name"
  by (cases name) (auto simp: is_absolute_def)

lemma path_head_name:
  obtains head name where "f = head @ name" and "\<not> list_ex is_slash name"
    and "head = [] \<or> (\<exists>h. head = h @ [CHR ''/''])"
    and "dirname f = (if head \<noteq> [] \<and> \<not> list_all is_slash head then rstrip_slashes head else head)"
proof -
  define head where "head = rev (dropWhile (\<lambda>c. \<not> is_slash c) (rev f))"
  define name where "name = rev (takeWhile (\<lambda>c. \<not> is_slash c) (rev f))"
  have "rev f = takeWhile (\<lambda>c. \<not> is_slash c) (rev f) @ dropWhile (\<lambda>c. \<not> is_slash c) (rev f)"
    by simp
  then have 1: "f = head @ name"
    unfolding head_def name_def by (metis rev_append rev_rev_ident)
  have 2: "\<not> list_ex is_slash name"
    unfolding name_def by (auto simp: list_ex_iff dest: set_takeWhileD)
  have 3: "head = [] \<or> (\<exists>h. head = h @ [CHR ''/''])"
  proof (cases "dropWhile (\<lambda>c. \<not> is_slash c) (rev f)")
    case Nil
    then show ?thesis by (simp add: head_def)
  next
    case (Cons c cs)
    then have "is_slash c"
      by (metis hd_dropWhile list.distinct(1) list.sel(1))
    with Cons show ?thesis by (simp add: head_def is_slash_def)
  qed
  have 4: "dirname f = (if head \<noteq> [] \<and> \<not> list_all is_slash head then rstrip_slashes head else head)"
    by (simp add: dirname_def head_def Let_def)
  from 1 2 3 4 that show thesis by blast
qed

lemma open_then_dirname:
  assumes r: "resolve root c f = Some loc" and l: "lookup root loc = Some (File content)"
  shows "if dirname f = [] then is_dir root c \<and> butlast loc = c
         else os_chdir root c (dirname f) = Some (butlast loc)"
proof -
  obtain head name where f: "f = head @ name" and nm: "\<not> list_ex is_slash name"
    and hd: "head = [] \<or> (\<exists>h. head = h @ [CHR ''/''])"
    and dn: "dirname f = (if head \<noteq> [] \<and> \<not> list_all is_slash head then rstrip_slashes head else head)"
    by (rule path_head_name)
  show ?thesis
  proof (cases "head = []")
    case True
    with f nm have "walk root c [name] = Some loc"
      using r by (simp add: resolve_def components_slash_free slash_free_relative)
    from walk_to_file [OF this l] True dn show ?thesis by simp
  next
    case False
    with hd obtain h where h: "head = h @ [CHR ''/'']" by blast
    define start where "start = (if is_absolute f then [] else c)"
    have abs: "\<And>d r. d \<noteq> [] \<Longrightarrow> f = d @ r \<Longrightarrow> (if is_absolute d then [] else c) = start"
      by (simp add: start_def is_absolute_append)
    have "components f = components h @ [name]"
      using f h nm by (simp add: components_append_slash is_slash_def components_slash_free)
    with r have "walk root start (components h @ [name]) = Some loc"
      by (simp add: resolve_def start_def)
    then obtain cur where cur: "walk root start (components h) = Some cur"
      and last: "walk root cur [name] = Some loc"
      by (auto simp: walk_append split: option.splits)
    from walk_to_file [OF last l] have dir: "is_dir root cur" and loc: "butlast loc = cur"
      by simp_all
    show ?thesis
    proof (cases "list_all is_slash head")
      case True
      with False dn have d: "dirname f = head" by simp
      have "components head = components h @ [[]]"
        using components_append_slash [of "CHR ''/''" h "[]"] h by (simp add: is_slash_def)
      then have "walk root start (components head) = Some cur"
        using cur dir by (simp add: walk_append)
      moreover have "(if is_absolute head then [] else c) = start"
        using abs [OF False f] .
      ultimately show ?thesis
        using d False dir loc by (simp add: os_chdir_def resolve_def)
    next
      case nall: False
      define d where "d = rstrip_slashes h"
      from nall False dn have dd: "dirname f = d"
        by (simp add: h d_def rstrip_slashes_snoc)
      have dne: "d \<noteq> []"
        using nall rstrip_slashes_empty [of h] by (auto simp: d_def h is_slash_def)
      obtain k where k: "h = d @ replicate k CHR ''/''"
        using rstrip_slashes_decompose [of h] d_def by blast
      have "components h = components d @ replicate k []"
      proof (cases k)
        case 0
        with k show ?thesis by simp
      next
        case (Suc j)
        with k components_append_slashes [of d j] show ?thesis by simp
      qed
      with cur obtain cur0 where c0: "walk root start (components d) = Some cur0"
        and e: "walk root cur0 (replicate k []) = Some cur"
        by (auto simp: walk_append split: option.splits)
      from walk_empties [OF e] c0 have "walk root start (components d) = Some cur"
        by simp
      moreover have "(if is_absolute d then [] else c) = start"
      proof (rule abs [OF dne])
        show "f = d @ (replicate k CHR ''/'' @ [CHR ''/''] @ name)"
          using f h k by simp
      qed
      ultimately show ?thesis
        using dd dne dir loc by (simp add: os_chdir_def resolve_def)
    qed
  qed
qed

lemma walk_clean:
  "walk root loc cs = Some l \<Longrightarrow> list_all clean_name loc \<Longrightarrow>
   \<forall>w\<in>set cs. \<not> list_ex is_slash w \<Longrightarrow> list_all clean_name l"
proof (induction cs arbitrary: loc)
  case Nil
  then show ?case by simp
next
  case (Cons c cs)
  have rest: "\<forall>w\<in>set cs. \<not> list_ex is_slash w"
    using Cons.prems(3) by simp
  consider "c = [] \<or> c = ''.''" | "c = ''..''" | "c \<noteq> []" "c \<noteq> ''.''" "c \<noteq> ''..''"
    by blast
  then show ?case
  proof cases
    case 1
    then have "walk root loc cs = Some l"
      using Cons.prems(1) by (auto split: if_splits)
    then show ?thesis
      using Cons.IH Cons.prems(2) rest by blast
  next
    case 2
    then have "walk root (butlast loc) cs = Some l"
      using Cons.prems(1) by (auto split: if_splits)
    moreover have "list_all clean_name (butlast loc)"
      using Cons.prems(2) by (auto simp: list_all_iff dest: in_set_butlastD)
    ultimately show ?thesis
      using Cons.IH rest by blast
  next
    case 3
    then have "walk root (loc @ [c]) cs = Some l"
      using Cons.prems(1) by (auto split: if_splits)
    moreover have "clean_name c"
      using 3 Cons.prems(3) by (simp add: clean_name_def)
    then have "list_all clean_name (loc @ [c])"
      using Cons.prems(2) by simp
    ultimately show ?thesis
      using Cons.IH rest by blast
  qed
qed

lemma resolve_clean:
  assumes "resolve root c f = Some loc" and "list_all clean_name c"
  shows "list_all clean_name loc"
proof -
  have "list_all clean_name (if is_absolute f then [] else c)"
    using assms(2) by simp
  moreover have "\<forall>w\<in>set (components f). \<not> list_ex is_slash w"
    by (auto dest: components_are_slash_free)
  ultimately show ?thesis
    using assms(1) walk_clean unfolding resolve_def by blast
qed

lemma valid_cwd_of_file:
  assumes "valid_cwd root c" and "resolve root c f = Some loc"
    and "lookup root loc = Some (File content)"
  shows "valid_cwd root (butlast loc)"
proof -
  have "list_all clean_name loc"
    using assms(1,2) resolve_clean by (auto simp: valid_cwd_def)
  then have "list_all clean_name (butlast loc)"
    by (auto simp: list_all_iff dest: in_set_butlastD)
  moreover have "is_dir root (butlast loc)"
    using open_then_dirname [OF assms(2,3)] assms(1)
    by (auto simp: valid_cwd_def os_chdir_def split: if_splits option.splits)
  ultimately show ?thesis by (simp add: valid_cwd_def)
qed

lemma components_join:
  "list_all clean_name c \<Longrightarrow> \<not> list_ex is_slash n \<Longrightarrow>
   components (n @ concat (map ((#) CHR ''/'') c)) = n # c"
proof (induction c arbitrary: n)
  case Nil
  then show ?case by (simp add: components_slash_free)
next
  case (Cons m c)
  have "\<not> list_ex is_slash m"
    using Cons.prems(1) by (simp add: clean_name_def)
  then have "components (m @ concat (map ((#) CHR ''/'') c)) = m # c"
    using Cons.IH Cons.prems(1) by simp
  moreover have "is_slash CHR ''/''"
    by (simp add: is_slash_def)
  ultimately show ?case
    using Cons.prems(2) components_append_slash [of "CHR ''/''" n "m @ concat (map ((#) CHR ''/'') c)"]
    by (simp add: components_slash_free)
qed

lemma walk_names:
  "list_all clean_name c \<Longrightarrow> is_dir root (p @ c) \<Longrightarrow> walk root p c = Some (p @ c)"
proof (induction c arbitrary: p)
  case Nil
  then show ?case by simp
next
  case (Cons n c)
  have "is_dir root p"
    using Cons.prems(2) by (rule is_dir_prefix)
  then show ?case
    using Cons.IH [of "p @ [n]"] Cons.prems by (simp add: clean_name_def)
qed

lemma chdir_getcwd:
  assumes "valid_cwd root c"
  shows "os_chdir root c' (os_getcwd c) = Some c"
proof (cases "c = []")
  case True
  with assms show ?thesis
    by (simp add: valid_cwd_def os_chdir_def os_getcwd_def resolve_def is_absolute_def
        is_slash_def)
next
  case False
  have cl: "list_all clean_name c" and d: "is_dir root c"
    using assms by (simp_all add: valid_cwd_def)
  have "components (os_getcwd c) = [] # c"
    using components_join [OF cl, of "[]"] False by (simp add: os_getcwd_def)
  moreover have "is_absolute (os_getcwd c)"
    using False by (cases c) (simp_all add: os_getcwd_def is_absolute_def is_slash_def)
  moreover have "is_dir root []"
    using is_dir_prefix [of root "[]" c] d by simp
  moreover have "walk root [] c = Some c"
    using walk_names [OF cl, of root "[]"] d by simp
  ultimately show ?thesis
    using d by (simp add: os_chdir_def resolve_def)
qed

lemma getcwd_nonempty: "os_getcwd c \<noteq> []"
  by (cases c) (simp_all add: os_getcwd_def)

subsection \<open>The loop\<close>

lemma interpreter_line_cwd:
  "interpreter_line depth input st = Inr (input', n, st1) \<Longrightarrow> cwd st1 = cwd st"
  by (auto simp: interpreter_line_def output_fd_write_def aborted_def readline_def
      split: if_splits option.splits list.splits)

lemma scan_ignore:
  "SHLDIGNORE_COMMENT_PATTERN_match line \<Longrightarrow>
   scan recurse f n (line # input) st =
     (if \<not> SOURCE_CMD_PATTERN_match (fst (readline input))
      then aborted (Exit IMPROPER_USE_OF_SHLDIGNORE (ShldignoreWithoutSource f n)) st
      else scan recurse f (n + 2) (snd (readline input))
             (output_fd_write (fst (readline input)) st))"
  by (simp add: split_beta)

lemma scan_source:
  "\<not> SHLDIGNORE_COMMENT_PATTERN_match line \<Longrightarrow> SOURCE_CMD_PATTERN_match line \<Longrightarrow>
   scan recurse f n (line # input) st =
     (case source_target line of
        Inl e \<Rightarrow> aborted (Uncaught e) st
      | Inr target \<Rightarrow>
          (case recurse target st of
             Inl a \<Rightarrow> Inl a
           | Inr st' \<Rightarrow> scan recurse f (n + 1) input st'))"
  by simp

lemma scan_copy:
  "\<not> SHLDIGNORE_COMMENT_PATTERN_match line \<Longrightarrow> \<not> SOURCE_CMD_PATTERN_match line \<Longrightarrow>
   scan recurse f n (line # input) st = scan recurse f (n + 1) input (output_fd_write line st)"
  by simp

declare scan.simps(2) [simp del]

lemma input_induct [case_names End Line]:
  assumes "P []" and "\<And>line input. P input \<Longrightarrow> P (snd (readline input)) \<Longrightarrow> P (line # input)"
  shows "P input"
proof -
  have "P input \<and> P (snd (readline input))"
    by (induction input) (auto simp: readline_def assms)
  then show ?thesis ..
qed

lemma scan_cwd:
  assumes "\<And>t s s'. cwd s = d \<Longrightarrow> recurse t s = Inr s' \<Longrightarrow> cwd s' = d"
  shows "cwd st = d \<Longrightarrow> scan recurse f n input st = Inr st' \<Longrightarrow> cwd st' = d"
proof (induction input arbitrary: n st rule: input_induct)
  case End
  then show ?case by simp
next
  case (Line line input)
  consider (ignore) "SHLDIGNORE_COMMENT_PATTERN_match line"
    | (source) "\<not> SHLDIGNORE_COMMENT_PATTERN_match line" "SOURCE_CMD_PATTERN_match line"
    | (copy) "\<not> SHLDIGNORE_COMMENT_PATTERN_match line" "\<not> SOURCE_CMD_PATTERN_match line"
    by blast
  then show ?case
  proof cases
    case ignore
    let ?st = "output_fd_write (fst (readline input)) st"
    have "scan recurse f (n + 2) (snd (readline input)) ?st = Inr st'"
      using ignore Line.prems(2) by (simp add: scan_ignore aborted_def split: if_splits)
    moreover have "cwd ?st = d"
      using Line.prems(1) by (simp add: output_fd_write_def)
    ultimately show ?thesis
      by (rule Line.IH(2) [rotated])
  next
    case source
    then obtain t s where "recurse t st = Inr s" and "scan recurse f (n + 1) input s = Inr st'"
      using Line.prems(2) by (auto simp: scan_source aborted_def split: sum.splits)
    moreover from this(1) have "cwd s = d"
      using assms Line.prems(1) by blast
    ultimately show ?thesis
      using Line.IH(1) by blast
  next
    case copy
    let ?st = "output_fd_write line st"
    have "scan recurse f (n + 1) input ?st = Inr st'"
      using copy Line.prems(2) by (simp add: scan_copy)
    moreover have "cwd ?st = d"
      using Line.prems(1) by (simp add: output_fd_write_def)
    ultimately show ?thesis
      by (rule Line.IH(1) [rotated])
  qed
qed

lemma line_cases [case_names ignore source copy]:
  obtains "SHLDIGNORE_COMMENT_PATTERN_match line"
  | "\<not> SHLDIGNORE_COMMENT_PATTERN_match line" "SOURCE_CMD_PATTERN_match line"
  | "\<not> SHLDIGNORE_COMMENT_PATTERN_match line" "\<not> SOURCE_CMD_PATTERN_match line"
  by blast

lemma scan_shift:
  assumes "\<And>t s. r t (s\<lparr>cwd := x\<rparr>) = with_cwd x (r t s)"
  shows "scan r f n input (st\<lparr>cwd := x\<rparr>) = with_cwd x (scan r f n input st)"
proof (induction input arbitrary: n st rule: input_induct)
  case End
  then show ?case by simp
next
  case (Line line input)
  show ?case
  proof (cases line rule: line_cases)
    case ignore
    have "output_fd_write l (st\<lparr>cwd := x\<rparr>) = (output_fd_write l st)\<lparr>cwd := x\<rparr>" for l
      by (simp add: output_fd_write_def)
    with ignore Line.IH(2) show ?thesis
      by (simp add: scan_ignore aborted_def)
  next
    case source
    with Line.IH(1) assms show ?thesis
      by (auto simp: scan_source aborted_def split: sum.splits)
  next
    case copy
    have "output_fd_write l (st\<lparr>cwd := x\<rparr>) = (output_fd_write l st)\<lparr>cwd := x\<rparr>" for l
      by (simp add: output_fd_write_def)
    with copy Line.IH(1) show ?thesis
      by (simp add: scan_copy)
  qed
qed

lemma scan_cong_cwd:
  assumes "\<And>t s. cwd s = d \<Longrightarrow> r1 t s = r2 t s"
    and "\<And>t s s'. cwd s = d \<Longrightarrow> r2 t s = Inr s' \<Longrightarrow> cwd s' = d"
  shows "cwd st = d \<Longrightarrow> scan r1 f n input st = scan r2 f n input st"
proof (induction input arbitrary: n st rule: input_induct)
  case End
  then show ?case by simp
next
  case (Line line input)
  show ?case
  proof (cases line rule: line_cases)
    case ignore
    have "cwd (output_fd_write (fst (readline input)) st) = d"
      using Line.prems by (simp add: output_fd_write_def)
    with ignore Line.IH(2) show ?thesis
      by (simp add: scan_ignore)
  next
    case source
    show ?thesis
    proof (cases "source_target line")
      case (Inl e)
      with source show ?thesis by (simp add: scan_source)
    next
      case (Inr t)
      have eq: "r1 t st = r2 t st"
        using assms(1) Line.prems by simp
      show ?thesis
      proof (cases "r2 t st")
        case (Inl a)
        with source Inr eq show ?thesis by (simp add: scan_source)
      next
        case r: (Inr s')
        then have "cwd s' = d"
          using assms(2) Line.prems by blast
        with source Inr eq r Line.IH(1) show ?thesis by (simp add: scan_source)
      qed
    qed
  next
    case copy
    have "cwd (output_fd_write line st) = d"
      using Line.prems by (simp add: output_fd_write_def)
    with copy Line.IH(1) show ?thesis
      by (simp add: scan_copy)
  qed
qed

lemma interpreter_line_shift:
  "interpreter_line depth input (st\<lparr>cwd := x\<rparr>) =
     (case interpreter_line depth input st of
        Inl a \<Rightarrow> Inl a
      | Inr (i, n, s) \<Rightarrow> Inr (i, n, s\<lparr>cwd := x\<rparr>))"
  by (simp add: interpreter_line_def aborted_def output_fd_write_def split_beta
      split: option.splits)

lemma spec_expand_shift:
  "spec_expand limit root dir f depth (st\<lparr>cwd := x\<rparr>) =
     with_cwd x (spec_expand limit root dir f depth st)"
proof (induction limit arbitrary: dir f depth st)
  case 0
  then show ?case by (simp add: aborted_def)
next
  case (Suc limit)
  have sh: "scan (\<lambda>target. spec_expand limit root dd target kk) ff n i (s\<lparr>cwd := x\<rparr>) =
      with_cwd x (scan (\<lambda>target. spec_expand limit root dd target kk) ff n i s)"
    for dd kk ff n i s
    by (rule scan_shift) (rule Suc.IH)
  show ?case
    by (auto simp: aborted_def interpreter_line_shift sh
        split: option.splits node.splits sum.splits)
qed

lemma spec_expand_cwd:
  "spec_expand limit root dir f depth st = Inr st' \<Longrightarrow> cwd st' = cwd st"
proof (induction limit arbitrary: dir f depth st st')
  case 0
  then show ?case by (simp add: aborted_def)
next
  case (Suc limit)
  from Suc.prems obtain loc content input n st1
    where i: "interpreter_line depth (lines_of content) st = Inr (input, n, st1)"
      and s: "scan (\<lambda>target. spec_expand limit root (butlast loc) target (depth + 1)) f n input st1 = Inr st'"
    by (auto simp: aborted_def split: option.splits node.splits sum.splits)
  have "cwd st' = cwd st1"
    by (rule scan_cwd [OF _ refl s]) (simp add: Suc.IH)
  with interpreter_line_cwd [OF i] show ?case by simp
qed

subsection \<open>The working directory is the directory of the file\<close>

lemma os_open_resolve:
  "os_open root c f = Some content \<longleftrightarrow>
     (\<exists>loc. resolve root c f = Some loc \<and> lookup root loc = Some (File content))"
  by (auto simp: os_open_def split: option.splits node.splits)

lemma os_open_None:
  "os_open root c f = None \<Longrightarrow>
     (case resolve root c f of None \<Rightarrow> True
      | Some loc \<Rightarrow> (case lookup root loc of Some (File content) \<Rightarrow> False | _ \<Rightarrow> True))"
  by (auto simp: os_open_def split: option.splits node.splits)

lemma process_file_spec_expand:
  "valid_cwd root (cwd st) \<Longrightarrow>
   process_file limit root f depth st = spec_expand limit root (cwd st) f depth st"
proof (induction limit arbitrary: f depth st)
  case 0
  then show ?case by simp
next
  case (Suc limit)
  show ?case
  proof (cases "os_open root (cwd st) f")
    case None
    from os_open_None [OF this] None show ?thesis
      by (auto split: option.splits node.splits)
  next
    case (Some content)
    then obtain loc where r: "resolve root (cwd st) f = Some loc"
      and l: "lookup root loc = Some (File content)"
      by (auto simp: os_open_resolve)
    let ?d = "butlast loc"
    let ?r1 = "\<lambda>target. process_file limit root target (depth + 1)"
    let ?r2 = "\<lambda>target. spec_expand limit root ?d target (depth + 1)"
    have vd: "valid_cwd root ?d"
      using Suc.prems r l by (rule valid_cwd_of_file)
    have same: "scan ?r1 f n input s = scan ?r2 f n input s" if "cwd s = ?d" for n input s
    proof (rule scan_cong_cwd [OF _ _ that])
      show "?r1 t s = ?r2 t s" if "cwd s = ?d" for t s
        using Suc.IH [of s t "depth + 1"] vd that by simp
      show "cwd s' = ?d" if "cwd s = ?d" "?r2 t s = Inr s'" for t s s'
        using spec_expand_cwd that by metis
    qed
    show ?thesis
    proof (cases "interpreter_line depth (lines_of content) st")
      case (Inl a)
      with Some r l show ?thesis by simp
    next
      case (Inr triple)
      then obtain input n st1
        where i: "interpreter_line depth (lines_of content) st = Inr (input, n, st1)"
        by (cases triple) auto
      have c1: "cwd st1 = cwd st"
        using i by (rule interpreter_line_cwd)
      have rhs: "spec_expand (Suc limit) root (cwd st) f depth st = scan ?r2 f n input st1"
        using r l i by simp
      show ?thesis
      proof (cases "dirname f = []")
        case True
        with open_then_dirname [OF r l] have "?d = cwd st" by simp
        with c1 same [of st1 n input] have "scan ?r1 f n input st1 = scan ?r2 f n input st1"
          by simp
        with Some i True rhs show ?thesis
          by (simp add: pushd_def popd_def split: sum.splits)
      next
        case False
        with open_then_dirname [OF r l] have cd: "os_chdir root (cwd st) (dirname f) = Some ?d"
          by simp
        let ?st2 = "st1\<lparr>cwd := ?d\<rparr>"
        have p: "pushd root f st1 = Inr (Some (os_getcwd (cwd st)), ?st2)"
          using False cd c1 by (simp add: pushd_def)
        have sc: "scan ?r1 f n input ?st2 = with_cwd ?d (scan ?r2 f n input st1)"
          using same [of ?st2 n input] scan_shift [of ?r2 ?d f n input st1] spec_expand_shift
          by simp
        show ?thesis
        proof (cases "scan ?r2 f n input st1")
          case (Inl a)
          with Some i p sc rhs show ?thesis by simp
        next
          case (Inr st3)
          have "cwd st3 = cwd st1"
          proof (rule scan_cwd [OF _ refl Inr])
            show "cwd s' = cwd st1" if "cwd s = cwd st1" "?r2 t s = Inr s'" for t s s'
              using spec_expand_cwd that by metis
          qed
          with c1 have "st3\<lparr>cwd := cwd st\<rparr> = st3" by simp
          with Some i p sc rhs Inr chdir_getcwd [OF Suc.prems, of ?d] show ?thesis
            by (simp add: popd_def getcwd_nonempty)
        qed
      qed
    qed
  qed
qed

text \<open>
  C3: a run of \<^verbatim>\<open>process_file\<close> from an existing working directory is the run of
  \<open>spec_expand\<close> with that directory as its parameter. In \<open>spec_expand\<close> a file name
  is resolved against the directory parameter, and the inclusion statements of the
  file that it opens at the location \<open>loc\<close> are expanded with the parameter
  \<open>butlast loc\<close>, the directory that contains the file, at every level of the
  recursion. Neither the directory of the top-level script nor the working directory
  of the first call is a parameter of the nested expansions.
\<close>

theorem inclusions_resolve_in_directory_of_file:
  assumes "valid_cwd root (cwd st)"
  shows "process_file limit root input_filename depth st =
         spec_expand limit root (cwd st) input_filename depth st"
  using assms by (rule process_file_spec_expand)

text \<open>
  The run on \<^verbatim>\<open>../scripts/main.sh\<close> from \<^verbatim>\<open>/work\<close>: \<^verbatim>\<open>main.sh\<close> includes
  \<^verbatim>\<open>lib/one.sh\<close>, which includes \<^verbatim>\<open>two.sh\<close>. The output has the line of
  \<^verbatim>\<open>/scripts/lib/two.sh\<close>, not that of \<^verbatim>\<open>/scripts/two.sh\<close> or of \<^verbatim>\<open>/work/two.sh\<close>.
\<close>

theorem inclusions_resolve_in_directory_of_file_witness:
  "valid_cwd example_tree (cwd in_work) \<and>
   process_file (Suc (Suc (Suc 0))) example_tree ''../scripts/main.sh'' 0 in_work =
     spec_expand (Suc (Suc (Suc 0))) example_tree (cwd in_work) ''../scripts/main.sh'' 0 in_work \<and>
   spec_expand (Suc (Suc (Suc 0))) example_tree (cwd in_work) ''../scripts/main.sh'' 0 in_work =
     Inr \<lparr>cwd = [''work''],
          out = ''#!/bin/bash\<newline>echo a\<newline>echo one\<newline>echo two of lib\<newline>echo b\<newline>''\<rparr>"
proof -
  have v: "valid_cwd example_tree (cwd in_work)"
    by (simp add: os_defs example_defs)
  have "spec_expand (Suc (Suc (Suc 0))) example_tree (cwd in_work) ''../scripts/main.sh'' 0 in_work =
     Inr \<lparr>cwd = [''work''],
          out = ''#!/bin/bash\<newline>echo a\<newline>echo one\<newline>echo two of lib\<newline>echo b\<newline>''\<rparr>"
    by (simp add: pattern_defs shlex_defs os_defs run_defs example_defs)
  with v inclusions_resolve_in_directory_of_file [OF v] show ?thesis
    by simp
qed

text \<open>
  C8: a run of \<^verbatim>\<open>process_file\<close> that returns leaves the working directory as it
  found it, for every file, depth and bound on the nesting. The working directory at
  the start is an existing directory; that of every nested call is one as well.
\<close>

theorem process_file_restores_cwd:
  assumes "valid_cwd root (cwd st)"
    and "process_file limit root input_filename depth st = Inr st'"
  shows "cwd st' = cwd st"
  using assms process_file_spec_expand [of root st limit input_filename depth]
    spec_expand_cwd [of limit root "cwd st" input_filename depth st st']
  by simp

text \<open>
  The run on \<^verbatim>\<open>../scripts/main.sh\<close> from \<^verbatim>\<open>/work\<close> changes to \<^verbatim>\<open>/scripts\<close> and, in the
  nested call, to \<^verbatim>\<open>/scripts/lib\<close>; it ends in \<^verbatim>\<open>/work\<close>.
\<close>

theorem process_file_restores_cwd_witness:
  "valid_cwd example_tree (cwd in_work) \<and>
   process_file (Suc (Suc (Suc 0))) example_tree ''../scripts/main.sh'' 0 in_work =
     Inr \<lparr>cwd = [''work''],
          out = ''#!/bin/bash\<newline>echo a\<newline>echo one\<newline>echo two of lib\<newline>echo b\<newline>''\<rparr> \<and>
   cwd \<lparr>cwd = [''work''],
        out = ''#!/bin/bash\<newline>echo a\<newline>echo one\<newline>echo two of lib\<newline>echo b\<newline>''\<rparr> =
     cwd in_work"
proof -
  have v: "valid_cwd example_tree (cwd in_work)"
    by (simp add: os_defs example_defs)
  have r: "process_file (Suc (Suc (Suc 0))) example_tree ''../scripts/main.sh'' 0 in_work =
     Inr \<lparr>cwd = [''work''],
          out = ''#!/bin/bash\<newline>echo a\<newline>echo one\<newline>echo two of lib\<newline>echo b\<newline>''\<rparr>"
    by (simp add: pattern_defs shlex_defs os_defs run_defs example_defs)
  from v r process_file_restores_cwd [OF v r] show ?thesis
    by simp
qed

subsection \<open>The output is the pasted text\<close>

lemma spec_expansion_scan:
  "spec_expansion root dir input expanded \<Longrightarrow>
   \<exists>N. \<forall>limit\<ge>N. \<forall>depth f n st.
     scan (\<lambda>target. spec_expand limit root dir target (Suc depth)) f n input st =
       Inr (st\<lparr>out := out st @ expanded\<rparr>)"
proof (induction rule: spec_expansion.induct)
  case (spec_expansion_end dir)
  then show ?case by simp
next
  case (spec_expansion_copy line dir input expanded)
  then obtain N where N: "\<And>limit depth f n st. N \<le> limit \<Longrightarrow>
      scan (\<lambda>target. spec_expand limit root dir target (Suc depth)) f n input st =
        Inr (st\<lparr>out := out st @ expanded\<rparr>)"
    by blast
  show ?case
  proof (intro exI allI impI)
    fix limit depth f n st
    assume "N \<le> limit"
    with spec_expansion_copy.hyps(1,2) N
    show "scan (\<lambda>target. spec_expand limit root dir target (Suc depth)) f n (line # input) st =
        Inr (st\<lparr>out := out st @ line @ expanded\<rparr>)"
      by (simp add: scan_copy output_fd_write_def)
  qed
next
  case (spec_expansion_include line target dir loc content included input expanded)
  from spec_expansion_include.IH(1) obtain N1 where N1: "\<And>limit depth f n st. N1 \<le> limit \<Longrightarrow>
      scan (\<lambda>target. spec_expand limit root (butlast loc) target (Suc depth)) f n (lines_of content) st =
        Inr (st\<lparr>out := out st @ included\<rparr>)"
    by blast
  from spec_expansion_include.IH(2) obtain N2 where N2: "\<And>limit depth f n st. N2 \<le> limit \<Longrightarrow>
      scan (\<lambda>target. spec_expand limit root dir target (Suc depth)) f n input st =
        Inr (st\<lparr>out := out st @ expanded\<rparr>)"
    by blast
  show ?case
  proof (intro exI allI impI)
    fix limit depth f n st
    assume le: "max (Suc N1) N2 \<le> limit"
    then obtain m where m: "limit = Suc m" and m1: "N1 \<le> m"
      by (cases limit) auto
    have "spec_expand (Suc m) root dir target (Suc depth) st =
        scan (\<lambda>target. spec_expand m root (butlast loc) target (Suc (Suc depth))) target 0
          (lines_of content) st"
      using spec_expansion_include.hyps(4,5) by (simp add: interpreter_line_def)
    also have "\<dots> = Inr (st\<lparr>out := out st @ included\<rparr>)"
      using N1 [OF m1] .
    finally have inner: "spec_expand limit root dir target (Suc depth) st =
        Inr (st\<lparr>out := out st @ included\<rparr>)"
      using m by simp
    have "N2 \<le> limit"
      using le by simp
    from N2 [OF this] inner spec_expansion_include.hyps(1,2,3)
    show "scan (\<lambda>target. spec_expand limit root dir target (Suc depth)) f n (line # input) st =
        Inr (st\<lparr>out := out st @ included @ expanded\<rparr>)"
      by (simp add: scan_source)
  qed
qed

text \<open>
  C1: for a top-level script with a supported interpreter line, opened from an
  existing working directory, whose remaining lines have the expansion \<open>expanded\<close>
  (every included file opens, no line is an ignore directive, the inclusions end):
  with a bound on the nesting that is large enough, \<^verbatim>\<open>process_file\<close> returns, and
  it has written the interpreter line and then \<open>expanded\<close>. The interpreter line is
  the one line that the loop does not scan.
\<close>

theorem output_is_pasted_expansion:
  assumes "valid_cwd root (cwd st)"
    and "resolve root (cwd st) f = Some loc"
    and "lookup root loc = Some (File content)"
    and "lines_of content = first # input"
    and "supported_interpreter first"
    and "spec_expansion root (butlast loc) input expanded"
  shows "\<exists>N. \<forall>limit\<ge>N.
           process_file limit root f 0 st = Inr (st\<lparr>out := out st @ first @ expanded\<rparr>)"
proof -
  from spec_expansion_scan [OF assms(6)] obtain N where N: "\<And>limit depth f n st. N \<le> limit \<Longrightarrow>
      scan (\<lambda>target. spec_expand limit root (butlast loc) target (Suc depth)) f n input st =
        Inr (st\<lparr>out := out st @ expanded\<rparr>)"
    by blast
  have i: "interpreter_line 0 (first # input) st = Inr (input, 1, output_fd_write first st)"
    using assms(5)
    by (auto simp: interpreter_line_def supported_interpreter_def readline_def
        split: option.splits)
  show ?thesis
  proof (intro exI allI impI)
    fix limit
    assume "Suc N \<le> limit"
    then obtain m where m: "limit = Suc m" and le: "N \<le> m"
      by (cases limit) auto
    have "process_file limit root f 0 st = spec_expand (Suc m) root (cwd st) f 0 st"
      using process_file_spec_expand [OF assms(1)] m by simp
    also have "\<dots> = scan (\<lambda>target. spec_expand m root (butlast loc) target (Suc 0)) f 1 input
        (output_fd_write first st)"
      using assms(2,3,4) i by simp
    also have "\<dots> = Inr (st\<lparr>out := out st @ first @ expanded\<rparr>)"
      using N [OF le] by (simp add: output_fd_write_def)
    finally show "process_file limit root f 0 st = Inr (st\<lparr>out := out st @ first @ expanded\<rparr>)" .
  qed
qed

text \<open>
  The script \<^verbatim>\<open>/scripts/main.sh\<close>, run from \<^verbatim>\<open>/work\<close>: its second inclusion level is
  pasted inside the first, between the lines of \<^verbatim>\<open>main.sh\<close>.
\<close>

theorem output_is_pasted_expansion_witness:
  "\<exists>N. \<forall>limit\<ge>N.
     process_file limit example_tree ''../scripts/main.sh'' 0 in_work =
       Inr \<lparr>cwd = [''work''],
            out = ''#!/bin/bash\<newline>echo a\<newline>echo one\<newline>echo two of lib\<newline>echo b\<newline>''\<rparr>"
proof -
  have v: "valid_cwd example_tree (cwd in_work)"
    by (simp add: os_defs example_defs)
  have r: "resolve example_tree (cwd in_work) ''../scripts/main.sh'' = Some [''scripts'', ''main.sh'']"
    by (simp add: os_defs example_defs)
  have l: "lookup example_tree [''scripts'', ''main.sh''] =
      Some (File ''#!/bin/bash\<newline>echo a\<newline>. lib/one.sh\<newline>echo b\<newline>'')"
    by (simp add: example_defs)
  have li: "lines_of ''#!/bin/bash\<newline>echo a\<newline>. lib/one.sh\<newline>echo b\<newline>'' =
      ''#!/bin/bash\<newline>'' # [''echo a\<newline>'', ''. lib/one.sh\<newline>'', ''echo b\<newline>'']"
    by simp
  have s: "supported_interpreter ''#!/bin/bash\<newline>''"
    by (simp add: pattern_defs)
  have two: "spec_expansion example_tree [''scripts'', ''lib''] [''echo two of lib\<newline>'']
      (''echo two of lib\<newline>'' @ [])"
    by (rule spec_expansion_copy) (simp_all add: pattern_defs spec_expansion_end)
  have one: "spec_expansion example_tree [''scripts'', ''lib'']
      [''echo one\<newline>'', ''source two.sh\<newline>'']
      (''echo one\<newline>'' @ (''echo two of lib\<newline>'' @ []) @ [])"
    apply (rule spec_expansion_copy)
      apply (simp add: pattern_defs)
     apply (simp add: pattern_defs)
    apply (rule spec_expansion_include
        [where target = "''two.sh''" and loc = "[''scripts'', ''lib'', ''two.sh'']"
           and content = "''echo two of lib\<newline>''"])
          apply (simp add: pattern_defs)
         apply (simp add: pattern_defs)
        apply (simp add: shlex_defs)
       apply (simp add: os_defs example_defs)
      apply (simp add: example_defs)
    using two apply simp
    apply (rule spec_expansion_end)
    done
  have main: "spec_expansion example_tree (butlast [''scripts'', ''main.sh''])
      [''echo a\<newline>'', ''. lib/one.sh\<newline>'', ''echo b\<newline>'']
      (''echo a\<newline>'' @ (''echo one\<newline>'' @ (''echo two of lib\<newline>'' @ []) @ []) @ ''echo b\<newline>'' @ [])"
    apply (rule spec_expansion_copy)
      apply (simp add: pattern_defs)
     apply (simp add: pattern_defs)
    apply (rule spec_expansion_include
        [where target = "''lib/one.sh''" and loc = "[''scripts'', ''lib'', ''one.sh'']"
           and content = "''echo one\<newline>source two.sh\<newline>''"])
          apply (simp add: pattern_defs)
         apply (simp add: pattern_defs)
        apply (simp add: shlex_defs)
       apply (simp add: os_defs example_defs)
      apply (simp add: example_defs)
    using one apply simp
    apply (rule spec_expansion_copy)
      apply (simp add: pattern_defs)
     apply (simp add: pattern_defs)
    apply (rule spec_expansion_end)
    done
  from output_is_pasted_expansion [OF v r l li s main] show ?thesis
    by (simp add: in_work_def)
qed

subsection \<open>A file without inclusions\<close>

lemma scan_ordinary:
  "list_all ordinary_line input \<Longrightarrow>
   scan recurse f n input st = Inr (st\<lparr>out := out st @ concat input\<rparr>)"
  by (induction input arbitrary: n st)
    (simp_all add: ordinary_line_def scan_copy output_fd_write_def)

text \<open>
  C7: a file that opens from an existing working directory, with no inclusion
  statement and no ignore directive among its lines and, at depth 0, a supported
  interpreter on its first line, is written to the output as it is, byte for byte.
\<close>

theorem plain_file_is_copied:
  assumes "valid_cwd root (cwd st)"
    and "os_open root (cwd st) f = Some content"
    and "list_all ordinary_line (lines_of content)"
    and "depth = 0 \<longrightarrow> supported_interpreter (fst (readline (lines_of content)))"
  shows "process_file (Suc limit) root f depth st = Inr (st\<lparr>out := out st @ content\<rparr>)"
proof -
  obtain loc where r: "resolve root (cwd st) f = Some loc"
    and l: "lookup root loc = Some (File content)"
    using assms(2) by (auto simp: os_open_resolve)
  have c: "concat (lines_of content) = content"
    by (rule concat_lines_of)
  have "spec_expand (Suc limit) root (cwd st) f depth st = Inr (st\<lparr>out := out st @ content\<rparr>)"
  proof (cases "depth = 0")
    case True
    with assms(4) obtain first input where li: "lines_of content = first # input"
      by (cases "lines_of content")
        (auto simp: supported_interpreter_def readline_def search_shell_def)
    with True assms(4)
    have "interpreter_line depth (lines_of content) st = Inr (input, 1, output_fd_write first st)"
      by (auto simp: interpreter_line_def supported_interpreter_def readline_def
          split: option.splits)
    moreover have "list_all ordinary_line input"
      using assms(3) li by simp
    ultimately show ?thesis
      using r l c li by (simp add: scan_ordinary output_fd_write_def)
  next
    case False
    then have "interpreter_line depth (lines_of content) st = Inr (lines_of content, 0, st)"
      by (simp add: interpreter_line_def)
    then show ?thesis
      using r l c assms(3) by (simp add: scan_ordinary)
  qed
  then show ?thesis
    using process_file_spec_expand [OF assms(1)] by simp
qed

text \<open>
  The script \<^verbatim>\<open>plain.sh\<close>, whose last line has no newline, run from \<^verbatim>\<open>/work\<close>.
\<close>

theorem plain_file_is_copied_witness:
  "valid_cwd example_tree (cwd in_work) \<and>
   os_open example_tree (cwd in_work) ''/scripts/plain.sh'' = Some ''#!/bin/sh\<newline>echo a\<newline>echo b'' \<and>
   list_all ordinary_line (lines_of ''#!/bin/sh\<newline>echo a\<newline>echo b'') \<and>
   supported_interpreter (fst (readline (lines_of ''#!/bin/sh\<newline>echo a\<newline>echo b''))) \<and>
   process_file (Suc 0) example_tree ''/scripts/plain.sh'' 0 in_work =
     Inr \<lparr>cwd = [''work''], out = ''#!/bin/sh\<newline>echo a\<newline>echo b''\<rparr>"
proof -
  have v: "valid_cwd example_tree (cwd in_work)"
    by (simp add: os_defs example_defs)
  have p: "os_open example_tree (cwd in_work) ''/scripts/plain.sh'' = Some ''#!/bin/sh\<newline>echo a\<newline>echo b''"
    by (simp add: os_defs example_defs)
  have l: "list_all ordinary_line (lines_of ''#!/bin/sh\<newline>echo a\<newline>echo b'')"
    by (simp add: pattern_defs)
  have s: "supported_interpreter (fst (readline (lines_of ''#!/bin/sh\<newline>echo a\<newline>echo b'')))"
    by (simp add: pattern_defs readline_def)
  from s have s': "(0::nat) = 0 \<longrightarrow>
      supported_interpreter (fst (readline (lines_of ''#!/bin/sh\<newline>echo a\<newline>echo b'')))"
    by simp
  from v p l s plain_file_is_copied [OF v p l s', of 0] show ?thesis
    by (simp add: in_work_def)
qed

subsection \<open>The interpreter line\<close>

lemma search_shell_no_match:
  assumes "list_all (\<lambda>c. is_slash c \<or> re_space c) line"
  shows "search_shell line = None"
proof -
  have "takeWhile shell_char (dropWhile re_space (rev line)) = []"
  proof (cases "dropWhile re_space (rev line)")
    case Nil
    then show ?thesis by (simp only: takeWhile.simps)
  next
    case (Cons c cs)
    then have "\<not> re_space c"
      by (metis hd_dropWhile list.distinct(1) list.sel(1))
    moreover have "c \<in> set line"
      using Cons by (metis list.set_intros(1) set_dropWhileD set_rev)
    ultimately have "\<not> shell_char c"
      using assms by (auto simp: list_all_iff shell_char_def is_slash_def)
    with Cons show ?thesis by simp
  qed
  then show ?thesis by (simp add: search_shell_def)
qed

text \<open>
  C10: a top-level script that opens and whose first line has only slashes and white
  space (the first line of an empty file is the empty string) makes the search for
  the interpreter name fail, and \<^verbatim>\<open>match.group(1)\<close> raises an \<^verbatim>\<open>AttributeError\<close> that
  nothing catches: the run does not leave through \<^verbatim>\<open>exit\<close>, and it has written
  nothing.
\<close>

theorem no_interpreter_name_raises_attribute_error:
  assumes "os_open root (cwd st) f = Some content"
    and "list_all (\<lambda>c. is_slash c \<or> re_space c) (fst (readline (lines_of content)))"
  shows "process_file (Suc limit) root f 0 st = Inl (Uncaught AttributeError, out st)"
  using assms(1) search_shell_no_match [OF assms(2)]
  by (simp add: interpreter_line_def aborted_def split_beta)

text \<open>The empty script \<^verbatim>\<open>empty.sh\<close>.\<close>

theorem no_interpreter_name_raises_attribute_error_witness:
  "os_open example_tree (cwd in_scripts) ''empty.sh'' = Some [] \<and>
   list_all (\<lambda>c. is_slash c \<or> re_space c) (fst (readline (lines_of []))) \<and>
   process_file (Suc 0) example_tree ''empty.sh'' 0 in_scripts = Inl (Uncaught AttributeError, []) \<and>
   exit_status (Uncaught AttributeError) \<notin> set (map Some documented_statuses)"
proof -
  have p: "os_open example_tree (cwd in_scripts) ''empty.sh'' = Some []"
    by (simp add: os_defs example_defs)
  have a: "list_all (\<lambda>c. is_slash c \<or> re_space c) (fst (readline (lines_of [])))"
    by (simp add: readline_def)
  from p a no_interpreter_name_raises_attribute_error [OF p a, of 0] show ?thesis
    by (simp add: in_scripts_def)
qed

lemma search_shell_match:
  assumes "search_shell line = Some shell"
  shows "\<exists>before after. line = before @ shell @ after \<and> shell \<noteq> [] \<and>
           list_all shell_char shell \<and> list_all re_space after \<and>
           (before = [] \<or> \<not> shell_char (last before))"
proof -
  define r where "r = dropWhile re_space (rev line)"
  define after where "after = rev (takeWhile re_space (rev line))"
  define before where "before = rev (dropWhile shell_char r)"
  have sh: "shell = rev (takeWhile shell_char r)" and ne: "shell \<noteq> []"
    using assms by (auto simp: search_shell_def r_def Let_def split: if_splits)
  have "rev line = takeWhile re_space (rev line) @ r"
    by (simp add: r_def)
  then have "line = rev r @ after"
    unfolding after_def by (metis rev_append rev_rev_ident)
  moreover have "rev r = before @ shell"
    unfolding before_def sh by (simp only: rev_append [symmetric] takeWhile_dropWhile_id)
  ultimately have 1: "line = before @ shell @ after"
    by simp
  have 2: "list_all shell_char shell"
    by (auto simp: sh list_all_iff dest: set_takeWhileD)
  have 3: "list_all re_space after"
    by (auto simp: after_def list_all_iff dest: set_takeWhileD)
  have 4: "before = [] \<or> \<not> shell_char (last before)"
  proof (cases "dropWhile shell_char r")
    case Nil
    then show ?thesis by (simp add: before_def)
  next
    case (Cons c cs)
    then have "\<not> shell_char c"
      by (metis hd_dropWhile list.distinct(1) list.sel(1))
    with Cons show ?thesis by (simp add: before_def)
  qed
  from 1 ne 2 3 4 show ?thesis by blast
qed

lemma scan_appends:
  assumes "\<And>t s. prefix (out s) (result_out (recurse t s))"
  shows "prefix (out st) (result_out (scan recurse f n input st))"
proof (induction input arbitrary: n st rule: input_induct)
  case End
  then show ?case by simp
next
  case (Line line input)
  show ?case
  proof (cases line rule: line_cases)
    case ignore
    have "prefix (out st) (out (output_fd_write l st))" for l
      by (simp add: output_fd_write_def)
    then show ?thesis
      using ignore Line.IH(2) prefix_order.trans by (fastforce simp: scan_ignore aborted_def)
  next
    case source
    show ?thesis
    proof (cases "source_target line")
      case (Inl e)
      with source show ?thesis by (simp add: scan_source aborted_def)
    next
      case (Inr t)
      show ?thesis
      proof (cases "recurse t st")
        case (Inl a)
        with assms [of st t] source Inr show ?thesis by (simp add: scan_source)
      next
        case r: (Inr s')
        with assms [of st t] have "prefix (out st) (out s')" by simp
        with Line.IH(1) [of s' "n + 1"] source Inr r show ?thesis
          using prefix_order.trans by (fastforce simp: scan_source)
      qed
    qed
  next
    case copy
    have "prefix (out st) (out (output_fd_write line st))"
      by (simp add: output_fd_write_def)
    then show ?thesis
      using copy Line.IH(1) prefix_order.trans by (fastforce simp: scan_copy)
  qed
qed

lemma popd_out: "result_out (popd root saved st) = out st"
  by (simp add: popd_def aborted_def split: option.splits)

lemma process_file_appends:
  "prefix (out st) (result_out (process_file limit root f depth st))"
proof (induction limit arbitrary: f depth st)
  case 0
  then show ?case by (simp add: aborted_def)
next
  case (Suc limit)
  have sc: "prefix (out s) (result_out (scan (\<lambda>target. process_file limit root target (depth + 1)) f n input s))"
    for n input s
    by (rule scan_appends) (rule Suc.IH)
  show ?case
  proof (cases "os_open root (cwd st) f")
    case None
    then show ?thesis by (simp add: aborted_def)
  next
    case (Some content)
    show ?thesis
    proof (cases "interpreter_line depth (lines_of content) st")
      case (Inl a)
      then have "result_out (Inl a :: result) = out st"
        by (auto simp: interpreter_line_def aborted_def split_beta
            split: if_splits option.splits)
      with Some Inl show ?thesis by simp
    next
      case (Inr triple)
      then obtain input n st1
        where i: "interpreter_line depth (lines_of content) st = Inr (input, n, st1)"
        by (cases triple) auto
      then have o1: "prefix (out st) (out st1)"
        by (auto simp: interpreter_line_def aborted_def output_fd_write_def split_beta
            split: if_splits option.splits)
      show ?thesis
      proof (cases "pushd root f st1")
        case (Inl a)
        then have "result_out (Inl a :: result) = out st1"
          by (auto simp: pushd_def aborted_def Let_def split: if_splits option.splits)
        with Some i Inl o1 show ?thesis by simp
      next
        case (Inr pair)
        then obtain saved st2 where p: "pushd root f st1 = Inr (saved, st2)"
          by (cases pair) auto
        then have o2: "out st2 = out st1"
          by (auto simp: pushd_def aborted_def Let_def split: if_splits option.splits)
        have "prefix (out st1) (result_out (case scan (\<lambda>target. process_file limit root target (depth + 1)) f n input st2 of
            Inl a \<Rightarrow> Inl a | Inr st3 \<Rightarrow> popd root saved st3))"
          using sc [of st2 n input] o2 by (auto simp: popd_out split: sum.splits)
        with Some i p o1 show ?thesis
          using prefix_order.trans by fastforce
      qed
    qed
  qed
qed

text \<open>
  C5, as stated: the name that is checked is what follows the last path separator.
  The first line of \<^verbatim>\<open>env.sh\<close> is \<^verbatim>\<open>#!/usr/bin/env bash\<close>: what follows its last
  separator is \<^verbatim>\<open>env bash\<close>, which is not a supported shell, and the run does not
  exit with status 2. It checks \<^verbatim>\<open>bash\<close> and writes the script.
\<close>

theorem interpreter_after_last_separator_counterexample:
  "trailing_path_component ''#!/usr/bin/env bash\<newline>'' = ''env bash'' \<and>
   ''env bash'' \<notin> set SUPPORTED_SHELLS \<and>
   search_shell ''#!/usr/bin/env bash\<newline>'' = Some ''bash'' \<and>
   process_file (Suc 0) example_tree ''env.sh'' 0 in_scripts =
     Inr \<lparr>cwd = [''scripts''], out = ''#!/usr/bin/env bash\<newline>echo a\<newline>''\<rparr>"
  by (simp add: trailing_path_component_def pattern_defs os_defs run_defs example_defs)

text \<open>
  C5, amended: when the search on the first line of a top-level script finds a name,
  the name is the last run of characters that are neither a slash nor white space,
  followed by white space only. If the name is a supported shell, the first line is
  written to the output unchanged, before anything else that the run writes. If it is
  not, the run exits with status 2, reports the name, and has written nothing.
\<close>

theorem interpreter_name_decides:
  assumes "os_open root (cwd st) f = Some content"
    and "readline (lines_of content) = (line, input)"
    and "search_shell line = Some shell"
  shows "(\<exists>before after. line = before @ shell @ after \<and> shell \<noteq> [] \<and>
            list_all shell_char shell \<and> list_all re_space after \<and>
            (before = [] \<or> \<not> shell_char (last before))) \<and>
         (shell \<in> set SUPPORTED_SHELLS \<longrightarrow>
            prefix (out st @ line) (result_out (process_file (Suc limit) root f 0 st))) \<and>
         (shell \<notin> set SUPPORTED_SHELLS \<longrightarrow>
            process_file (Suc limit) root f 0 st =
              Inl (Exit UNSUPPORTED_SHELL (NotASupportedShell shell), out st))"
proof (intro conjI impI)
  show "\<exists>before after. line = before @ shell @ after \<and> shell \<noteq> [] \<and>
            list_all shell_char shell \<and> list_all re_space after \<and>
            (before = [] \<or> \<not> shell_char (last before))"
    using assms(3) by (rule search_shell_match)
next
  assume "shell \<notin> set SUPPORTED_SHELLS"
  with assms show "process_file (Suc limit) root f 0 st =
      Inl (Exit UNSUPPORTED_SHELL (NotASupportedShell shell), out st)"
    by (simp add: interpreter_line_def aborted_def)
next
  assume ok: "shell \<in> set SUPPORTED_SHELLS"
  let ?st1 = "output_fd_write line st"
  let ?scan = "scan (\<lambda>target. process_file limit root target (0 + 1)) f 1 input"
  have i: "interpreter_line 0 (lines_of content) st = Inr (input, 1, ?st1)"
    using assms(2,3) ok by (simp add: interpreter_line_def)
  have "prefix (out ?st1) (result_out (process_file (Suc limit) root f 0 st))"
  proof (cases "pushd root f ?st1")
    case (Inl a)
    then have "result_out (Inl a :: result) = out ?st1"
      by (auto simp: pushd_def aborted_def Let_def split: if_splits option.splits)
    with assms(1) i Inl show ?thesis by simp
  next
    case (Inr pair)
    then obtain saved st2 where p: "pushd root f ?st1 = Inr (saved, st2)"
      by (cases pair) auto
    then have o2: "out st2 = out ?st1"
      by (auto simp: pushd_def aborted_def Let_def split: if_splits option.splits)
    have "prefix (out st2) (result_out (?scan st2))"
      by (rule scan_appends) (rule process_file_appends)
    with assms(1) i p o2 show ?thesis
      by (auto simp: popd_out split: sum.splits)
  qed
  then show "prefix (out st @ line) (result_out (process_file (Suc limit) root f 0 st))"
    by (simp add: output_fd_write_def)
qed
text \<open>
  The script \<^verbatim>\<open>zsh.sh\<close> is refused, and the first line of \<^verbatim>\<open>main.sh\<close> starts the
  output.
\<close>

theorem interpreter_name_decides_witness:
  "os_open example_tree (cwd in_scripts) ''zsh.sh'' = Some ''#!/bin/zsh\<newline>echo a\<newline>'' \<and>
   search_shell ''#!/bin/zsh\<newline>'' = Some ''zsh'' \<and>
   ''zsh'' \<notin> set SUPPORTED_SHELLS \<and>
   process_file (Suc 0) example_tree ''zsh.sh'' 0 in_scripts =
     Inl (Exit 2 (NotASupportedShell ''zsh''), []) \<and>
   os_open example_tree (cwd in_scripts) ''env.sh'' = Some ''#!/usr/bin/env bash\<newline>echo a\<newline>'' \<and>
   search_shell ''#!/usr/bin/env bash\<newline>'' = Some ''bash'' \<and>
   ''bash'' \<in> set SUPPORTED_SHELLS \<and>
   prefix ''#!/usr/bin/env bash\<newline>'' (result_out (process_file (Suc 0) example_tree ''env.sh'' 0 in_scripts))"
proof -
  have p: "os_open example_tree (cwd in_scripts) ''zsh.sh'' = Some ''#!/bin/zsh\<newline>echo a\<newline>''"
    by (simp add: os_defs example_defs)
  have r: "readline (lines_of ''#!/bin/zsh\<newline>echo a\<newline>'') = (''#!/bin/zsh\<newline>'', [''echo a\<newline>''])"
    by (simp add: readline_def)
  have s: "search_shell ''#!/bin/zsh\<newline>'' = Some ''zsh''"
    by (simp add: pattern_defs)
  have n: "''zsh'' \<notin> set SUPPORTED_SHELLS"
    by (simp add: pattern_defs)
  have p': "os_open example_tree (cwd in_scripts) ''env.sh'' = Some ''#!/usr/bin/env bash\<newline>echo a\<newline>''"
    by (simp add: os_defs example_defs)
  have r': "readline (lines_of ''#!/usr/bin/env bash\<newline>echo a\<newline>'') =
      (''#!/usr/bin/env bash\<newline>'', [''echo a\<newline>''])"
    by (simp add: readline_def)
  have s': "search_shell ''#!/usr/bin/env bash\<newline>'' = Some ''bash''"
    by (simp add: pattern_defs)
  have y: "''bash'' \<in> set SUPPORTED_SHELLS"
    by (simp add: pattern_defs)
  from p s n p' s' y interpreter_name_decides [OF p r s, of 0] interpreter_name_decides [OF p' r' s', of 0]
  show ?thesis
    by (simp add: in_scripts_def UNSUPPORTED_SHELL_def)
qed

subsection \<open>The ignore directive\<close>

text \<open>
  C2, as stated: the directive line is written, and the inclusion line after it.
  The run on \<^verbatim>\<open>ignore.sh\<close>, whose second line is the directive and whose third line
  is an inclusion statement, writes the interpreter line and the inclusion line: the
  directive line is not in the output.
\<close>

theorem ignore_directive_line_counterexample:
  "SHLDIGNORE_COMMENT_PATTERN_match ''#shldignore\<newline>'' \<and>
   SOURCE_CMD_PATTERN_match ''. lib/one.sh\<newline>'' \<and>
   process_file (Suc 0) example_tree ''ignore.sh'' 0 in_scripts =
     Inr \<lparr>cwd = [''scripts''], out = ''#!/bin/bash\<newline>. lib/one.sh\<newline>''\<rparr> \<and>
   process_file (Suc 0) example_tree ''ignore.sh'' 0 in_scripts \<noteq>
     Inr \<lparr>cwd = [''scripts''],
          out = ''#!/bin/bash\<newline>#shldignore\<newline>. lib/one.sh\<newline>''\<rparr>"
  by (simp add: pattern_defs os_defs run_defs example_defs)

text \<open>
  C2, amended: at a directive line that is followed by an inclusion statement, the
  loop writes the inclusion line unchanged, makes no recursive call for it, writes
  nothing for the directive line, and goes on with the line after the inclusion.
\<close>

theorem ignore_directive_keeps_inclusion_line:
  assumes "SHLDIGNORE_COMMENT_PATTERN_match line"
    and "SOURCE_CMD_PATTERN_match line'"
  shows "scan recurse input_filename line_number (line # line' # input) st =
         scan recurse input_filename (line_number + 2) input (st\<lparr>out := out st @ line'\<rparr>)"
  using assms by (simp add: scan_ignore readline_def output_fd_write_def)

text \<open>The second and third line of \<^verbatim>\<open>ignore.sh\<close>.\<close>

theorem ignore_directive_keeps_inclusion_line_witness:
  "SHLDIGNORE_COMMENT_PATTERN_match ''#shldignore\<newline>'' \<and>
   SOURCE_CMD_PATTERN_match ''. lib/one.sh\<newline>'' \<and>
   scan (\<lambda>target. process_file 0 example_tree target 1) ''ignore.sh'' 1
     [''#shldignore\<newline>'', ''. lib/one.sh\<newline>''] in_scripts =
     Inr \<lparr>cwd = [''scripts''], out = ''. lib/one.sh\<newline>''\<rparr>"
proof -
  have d: "SHLDIGNORE_COMMENT_PATTERN_match ''#shldignore\<newline>''"
    by (simp add: pattern_defs)
  have i: "SOURCE_CMD_PATTERN_match ''. lib/one.sh\<newline>''"
    by (simp add: pattern_defs)
  show ?thesis
    using d i
      ignore_directive_keeps_inclusion_line
        [OF d i, of "\<lambda>target. process_file 0 example_tree target 1" "''ignore.sh''" 1 "[]"
           in_scripts]
    by (simp add: in_scripts_def)
qed

text \<open>
  A directive that is not followed by an inclusion statement, after \<open>k\<close> ordinary
  lines: the loop exits with status 3 and reports the value that \<open>line_number\<close> had on
  entry plus \<open>k\<close>. On entry the value is 1 at depth 0, where the interpreter line has
  been read, and 0 below: the number reported is one less than the number of the
  directive line in its file.
\<close>

lemma scan_misuse_report:
  assumes "list_all ordinary_line before" and "SHLDIGNORE_COMMENT_PATTERN_match directive"
    and "\<not> SOURCE_CMD_PATTERN_match (fst (readline rest))"
  shows "scan recurse f n (before @ directive # rest) st =
     Inl (Exit IMPROPER_USE_OF_SHLDIGNORE (ShldignoreWithoutSource f (n + length before)),
          out st @ concat before)"
  using assms(1)
proof (induction before arbitrary: n st)
  case Nil
  with assms(2,3) show ?case by (simp add: scan_ignore aborted_def)
next
  case (Cons line before)
  then show ?case
    by (simp add: ordinary_line_def scan_copy output_fd_write_def)
qed

text \<open>
  C4, at a file whose directive is on line 2 and is followed by a line that is not an
  inclusion statement: the run exits with status 3 and names the file, and the line
  number that it reports is 1.
\<close>

theorem misuse_reports_line_before_directive:
  "lines_of ''#!/bin/bash\<newline>#shldignore\<newline>echo not-an-include\<newline>'' ! 1 = ''#shldignore\<newline>'' \<and>
   process_file (Suc limit) example_tree ''misuse.sh'' 0 in_scripts =
     Inl (Exit 3 (ShldignoreWithoutSource ''misuse.sh'' 1), ''#!/bin/bash\<newline>'')"
  by (simp add: pattern_defs os_defs run_defs example_defs)

subsection \<open>A keyword without a file name\<close>

text \<open>
  C6, at the line \<^verbatim>\<open>source \<close> followed by a newline: the pattern accepts the line as
  an inclusion statement, although only white space follows the keyword.
\<close>

theorem keyword_alone_is_accepted:
  "SOURCE_CMD_PATTERN_match ''source \<newline>'' \<and> \<not> names_a_file ''source \<newline>''"
  by (simp add: pattern_defs names_a_file_def keyword_space_name_def)

text \<open>
  C9: the line \<^verbatim>\<open>source \<close> followed by a newline is accepted as an inclusion
  statement, it splits into the single word \<^verbatim>\<open>source\<close>, the subscript 1 raises
  \<^verbatim>\<open>IndexError\<close>, and the run on a script with that line dies of the exception: it does
  not leave through \<^verbatim>\<open>exit\<close>.
\<close>

theorem keyword_alone_raises_index_error:
  "SOURCE_CMD_PATTERN_match ''source \<newline>'' \<and>
   shlex_split ''source \<newline>'' = Inr [''source''] \<and>
   source_target ''source \<newline>'' = Inl IndexError \<and>
   process_file (Suc limit) example_tree ''keyword.sh'' 0 in_scripts =
     Inl (Uncaught IndexError, ''#!/bin/sh\<newline>'') \<and>
   exit_status (Uncaught IndexError) \<notin> set (map Some documented_statuses)"
  by (simp add: pattern_defs shlex_defs os_defs run_defs example_defs)

end
